theory Spec2Isabelle
  imports Main
begin

section \<open>The threaded-message store of backend/database.py\<close>

text \<open>
  The store is a pair of SQLite tables created by \<open>init_db\<close>. A table is the list of its
  rows in rowid order. Every public function of database.py opens a connection with
  \<open>PRAGMA foreign_keys = ON\<close>, runs its statements and commits; an exception skips the
  commit, so a failed call leaves the tables as they were. Each function of the model
  therefore maps a store to its result and the store after the call.

  Columns hold what SQLite stores after column affinity: ids are integers, the text
  columns are strings, a nullable column is an \<open>option\<close> with \<open>None\<close> for NULL. The
  \<open>created_at\<close> columns hold CURRENT_TIMESTAMP, a fixed-width text whose text order is
  the order of time; the model keeps it as the number of seconds, and the clock is an
  argument of the two inserting functions.
\<close>

type_synonym timestamp = nat

record thread_row =
  t_id :: int
  title :: string
  t_created_at :: timestamp

record message_row =
  m_id :: int
  thread_id :: int
  parent_id :: "int option"
  writer_name :: string
  content :: string
  layout_data :: "string option"
  created_at :: timestamp

text \<open>
  \<open>thread_seq\<close> and \<open>message_seq\<close> are the rows of \<open>sqlite_sequence\<close> that AUTOINCREMENT
  keeps: the largest id ever given out in each table.
\<close>

record db =
  threads :: "thread_row list"
  messages :: "message_row list"
  thread_seq :: int
  message_seq :: int

text \<open>sqlite3.IntegrityError, raised for a NOT NULL and for a FOREIGN KEY constraint.\<close>

datatype error = NotNull_failed | ForeignKey_failed

text \<open>\<open>init_db\<close> on a fresh database file: both tables exist and are empty.\<close>

definition init_db :: db where
  "init_db = \<lparr>threads = [], messages = [], thread_seq = 0, message_seq = 0\<rparr>"

subsection \<open>Engine rules declared by the schema\<close>

text \<open>
  \<open>INTEGER PRIMARY KEY AUTOINCREMENT\<close>: the new id is one more than the largest id that
  is or ever was in the table.
\<close>

definition next_id :: "int \<Rightarrow> int list \<Rightarrow> int" where
  "next_id seq ids = fold max ids seq + 1"

text \<open>
  \<open>FOREIGN KEY (parent_id) REFERENCES messages(id) ON DELETE CASCADE\<close>: when a message
  row is deleted, the rows whose \<open>parent_id\<close> is its id are deleted too, and so on for
  the rows deleted that way. \<open>cascade ids rows\<close> takes the ids of the rows already deleted
  and the rows still in the table, and returns the rows that stay.
\<close>

function cascade :: "int list \<Rightarrow> message_row list \<Rightarrow> message_row list" where
  "cascade [] rows = rows"
| "cascade (i # ids) rows =
     cascade (ids @ map m_id (filter (\<lambda>r. parent_id r = Some i) rows))
             (filter (\<lambda>r. parent_id r \<noteq> Some i) rows)"
  by pat_completeness auto
termination
proof (relation "measures [\<lambda>(ids, rows). length rows, \<lambda>(ids, rows). length ids]", goal_cases)
  case 1
  show ?case by simp
next
  case (2 i ids rows)
  let ?kids = "filter (\<lambda>r. parent_id r = Some i) rows"
  let ?rest = "filter (\<lambda>r. parent_id r \<noteq> Some i) rows"
  have total: "length ?kids + length ?rest = length rows"
    using sum_length_filter_compl [of "\<lambda>r. parent_id r = Some i" rows] by simp
  show ?case
  proof (cases "?kids = []")
    case True
    then have "length ?rest = length rows" using total by simp
    with True show ?thesis by simp
  next
    case False
    then have "0 < length ?kids" by simp
    then have "length ?rest < length rows" using total by linarith
    then show ?thesis by simp
  qed
qed

subsection \<open>Reads\<close>

record thread_summary =
  s_id :: int
  s_title :: string
  s_created_at :: timestamp
  message_count :: nat

text \<open>
  \<open>get_all_threads\<close>: \<open>id\<close> is the primary key, so each group of \<open>GROUP BY t.id\<close> is one
  thread row, and \<open>COUNT(m.id)\<close> over the left join counts the messages of that thread.
  SQL leaves the order of rows with equal \<open>created_at\<close> open; the model sorts stably
  and reverses.
\<close>

definition get_all_threads :: "db \<Rightarrow> thread_summary list" where
  "get_all_threads d =
     rev (sort_key s_created_at
       (map (\<lambda>t. \<lparr>s_id = t_id t, s_title = title t, s_created_at = t_created_at t,
                  message_count = length (filter (\<lambda>m. thread_id m = t_id t) (messages d))\<rparr>)
            (threads d)))"

record thread_view =
  v_id :: int
  v_title :: string
  v_created_at :: timestamp
  v_messages :: "message_row list"

definition get_thread_with_messages :: "db \<Rightarrow> int \<Rightarrow> thread_view option" where
  "get_thread_with_messages d tid =
     (case find (\<lambda>t. t_id t = tid) (threads d) of
        None \<Rightarrow> None
      | Some t \<Rightarrow>
          Some \<lparr>v_id = t_id t, v_title = title t, v_created_at = t_created_at t,
                v_messages = sort_key created_at (filter (\<lambda>m. thread_id m = tid) (messages d))\<rparr>)"

subsection \<open>Writes\<close>

text \<open>
  \<open>create_thread\<close>: the title bound to the statement is \<open>None\<close> for Python's \<open>None\<close>; the
  column is \<open>TEXT NOT NULL\<close>. The empty string is a text like any other.
\<close>

definition create_thread :: "db \<Rightarrow> timestamp \<Rightarrow> string option \<Rightarrow> (error + int \<times> string) \<times> db" where
  "create_thread d now ttl =
     (case ttl of
        None \<Rightarrow> (Inl NotNull_failed, d)
      | Some s \<Rightarrow>
          (let i = next_id (thread_seq d) (map t_id (threads d))
           in (Inr (i, s),
               d\<lparr>threads := threads d @ [\<lparr>t_id = i, title = s, t_created_at = now\<rparr>],
                 thread_seq := i\<rparr>)))"

text \<open>
  \<open>delete_thread\<close>: the thread rows with that id go, and for each of them the cascade of
  \<open>thread_id\<close> deletes the messages of the thread, whose own deletion cascades along
  \<open>parent_id\<close>.
\<close>

definition delete_thread :: "db \<Rightarrow> int \<Rightarrow> bool \<times> db" where
  "delete_thread d tid =
     (let gone = map t_id (filter (\<lambda>t. t_id t = tid) (threads d))
      in (True,
          d\<lparr>threads := filter (\<lambda>t. t_id t \<noteq> tid) (threads d),
            messages := cascade (map m_id (filter (\<lambda>m. thread_id m \<in> set gone) (messages d)))
                                (filter (\<lambda>m. thread_id m \<notin> set gone) (messages d))\<rparr>))"

text \<open>
  \<open>create_message\<close>: NOT NULL on \<open>thread_id\<close>, \<open>writer_name\<close> and \<open>content\<close>; the two foreign
  keys are checked with the new row in the table, so a \<open>parent_id\<close> equal to the new
  row's own id is accepted. Nothing compares the parent's thread with \<open>thread_id\<close>.
  The function returns the created row without \<open>layout_data\<close> and \<open>created_at\<close>.
\<close>

type_synonym message_info = "int \<times> int \<times> int option \<times> string \<times> string"

definition create_message ::
  "db \<Rightarrow> timestamp \<Rightarrow> int option \<Rightarrow> int option \<Rightarrow> string option \<Rightarrow> string option
     \<Rightarrow> (error + message_info) \<times> db" where
  "create_message d now tid pid wname cont =
     (case (tid, wname, cont) of
        (Some t, Some w, Some c) \<Rightarrow>
          (let i = next_id (message_seq d) (map m_id (messages d))
           in if t \<in> set (map t_id (threads d))
                 \<and> (case pid of None \<Rightarrow> True
                               | Some p \<Rightarrow> p \<in> set (map m_id (messages d)) \<or> p = i)
              then (Inr (i, t, pid, w, c),
                    d\<lparr>messages := messages d @
                         [\<lparr>m_id = i, thread_id = t, parent_id = pid, writer_name = w,
                           content = c, layout_data = None, created_at = now\<rparr>],
                      message_seq := i\<rparr>)
              else (Inl ForeignKey_failed, d))
      | _ \<Rightarrow> (Inl NotNull_failed, d))"

definition delete_message :: "db \<Rightarrow> int \<Rightarrow> bool \<times> db" where
  "delete_message d mid =
     (True,
      d\<lparr>messages := cascade (map m_id (filter (\<lambda>m. m_id m = mid) (messages d)))
                            (filter (\<lambda>m. m_id m \<noteq> mid) (messages d))\<rparr>)"

definition update_message_layout :: "db \<Rightarrow> int \<Rightarrow> string option \<Rightarrow> bool \<times> db" where
  "update_message_layout d mid lay =
     (True,
      d\<lparr>messages := map (\<lambda>m. if m_id m = mid then m\<lparr>layout_data := lay\<rparr> else m) (messages d)\<rparr>)"

text \<open>
  \<open>update_thread_layouts\<close>: \<open>layouts.items()\<close> is the list of entries in the dict's
  order. A key is compared with the integer column \<open>id\<close>, so the entry carries the
  integer the key stands for, and two keys may stand for the same integer.
  \<open>set_layout\<close> is one UPDATE of the loop.
\<close>

definition set_layout :: "int \<Rightarrow> int \<times> string option \<Rightarrow> message_row list \<Rightarrow> message_row list" where
  "set_layout tid e rows =
     map (\<lambda>m. if m_id m = fst e \<and> thread_id m = tid then m\<lparr>layout_data := snd e\<rparr> else m) rows"

fun set_layouts :: "int \<Rightarrow> (int \<times> string option) list \<Rightarrow> message_row list \<Rightarrow> message_row list" where
  "set_layouts tid [] rows = rows"
| "set_layouts tid (e # es) rows = set_layouts tid es (set_layout tid e rows)"

definition update_thread_layouts :: "db \<Rightarrow> int \<Rightarrow> (int \<times> string option) list \<Rightarrow> bool \<times> db" where
  "update_thread_layouts d tid layouts =
     (True, d\<lparr>messages := set_layouts tid layouts (messages d)\<rparr>)"

definition clear_thread_layouts :: "db \<Rightarrow> int \<Rightarrow> bool \<times> db" where
  "clear_thread_layouts d tid =
     (True,
      d\<lparr>messages := map (\<lambda>m. if thread_id m = tid then m\<lparr>layout_data := None\<rparr> else m) (messages d)\<rparr>)"

subsection \<open>The two creating routes of backend/app.py\<close>








subsection \<open>Notions the properties are stated with\<close>

text \<open>
  \<open>descendant d m x\<close>: \<open>x\<close> is \<open>m\<close> or the id of a message reached from \<open>m\<close> by following
  \<open>parent_id\<close> links downwards, any number of times.
\<close>

inductive descendant :: "db \<Rightarrow> int \<Rightarrow> int \<Rightarrow> bool" for d :: db and m :: int where
  self: "descendant d m m"
| child: "descendant d m p \<Longrightarrow> r \<in> set (messages d) \<Longrightarrow> parent_id r = Some p
          \<Longrightarrow> descendant d m (m_id r)"

text \<open>
  \<open>doomed W rows r\<close>: the row \<open>r\<close> of \<open>rows\<close> hangs, through rows of \<open>rows\<close>, below one of
  the deleted ids \<open>W\<close>.
\<close>

inductive doomed :: "int set \<Rightarrow> message_row list \<Rightarrow> message_row \<Rightarrow> bool"
  for W :: "int set" and rows :: "message_row list" where
  direct: "r \<in> set rows \<Longrightarrow> parent_id r = Some i \<Longrightarrow> i \<in> W \<Longrightarrow> doomed W rows r"
| below: "doomed W rows q \<Longrightarrow> r \<in> set rows \<Longrightarrow> parent_id r = Some (m_id q)
          \<Longrightarrow> doomed W rows r"

text \<open>\<open>in_thread rows tid mid\<close>: some row of \<open>rows\<close> has id \<open>mid\<close> and belongs to thread \<open>tid\<close>.\<close>

definition in_thread :: "message_row list \<Rightarrow> int \<Rightarrow> int \<Rightarrow> bool" where
  "in_thread rows tid mid = list_ex (\<lambda>m. m_id m = mid \<and> thread_id m = tid) rows"

text \<open>A message row with its layout blob taken away.\<close>

definition without_layout :: "message_row \<Rightarrow> message_row" where
  "without_layout m = m\<lparr>layout_data := None\<rparr>"

text \<open>The stores that calls of database.py build from a fresh database.\<close>

inductive reachable :: "db \<Rightarrow> bool" where
  r_init: "reachable init_db"
| r_create_thread: "reachable d \<Longrightarrow> reachable (snd (create_thread d now ttl))"
| r_delete_thread: "reachable d \<Longrightarrow> reachable (snd (delete_thread d tid))"
| r_create_message: "reachable d \<Longrightarrow> reachable (snd (create_message d now tid pid w c))"
| r_delete_message: "reachable d \<Longrightarrow> reachable (snd (delete_message d mid))"
| r_update_message_layout: "reachable d \<Longrightarrow> reachable (snd (update_message_layout d mid lay))"
| r_update_thread_layouts: "reachable d \<Longrightarrow> reachable (snd (update_thread_layouts d tid layouts))"
| r_clear_thread_layouts: "reachable d \<Longrightarrow> reachable (snd (clear_thread_layouts d tid))"





subsection \<open>Example stores\<close>

text \<open>Thread 1 holds a chain of four messages, thread 2 a single one.\<close>

definition demo_db :: db where
  "demo_db =
     \<lparr>threads = [\<lparr>t_id = 1, title = ''Demo'', t_created_at = 10\<rparr>,
                 \<lparr>t_id = 2, title = ''Other'', t_created_at = 20\<rparr>],
      messages = [\<lparr>m_id = 1, thread_id = 1, parent_id = None, writer_name = ''A'',
                    content = ''hi'', layout_data = None, created_at = 11\<rparr>,
                  \<lparr>m_id = 2, thread_id = 1, parent_id = Some 1, writer_name = ''B'',
                    content = ''reply'', layout_data = None, created_at = 12\<rparr>,
                  \<lparr>m_id = 3, thread_id = 1, parent_id = Some 2, writer_name = ''A'',
                    content = ''again'', layout_data = Some ''x'', created_at = 13\<rparr>,
                  \<lparr>m_id = 4, thread_id = 1, parent_id = Some 3, writer_name = ''B'',
                    content = ''deep'', layout_data = None, created_at = 14\<rparr>,
                  \<lparr>m_id = 5, thread_id = 2, parent_id = None, writer_name = ''C'',
                    content = ''elsewhere'', layout_data = Some ''y'', created_at = 21\<rparr>],
      thread_seq = 2, message_seq = 5\<rparr>"



section \<open>Properties\<close>

subsection \<open>Helper facts\<close>


lemma set_layout_frame: "map without_layout (set_layout tid e rows) = map without_layout rows"
  by (simp add: set_layout_def without_layout_def)

lemma set_layouts_frame: "map without_layout (set_layouts tid es rows) = map without_layout rows"
  by (induction es arbitrary: rows) (simp_all add: set_layout_frame)



lemma clear_other:
  "filter (\<lambda>m. thread_id m \<noteq> tid)
      (map (\<lambda>m. if thread_id m = tid then m\<lparr>layout_data := None\<rparr> else m) (rows :: message_row list))
   = filter (\<lambda>m. thread_id m \<noteq> tid) rows"
  by (induction rows) simp_all




lemma get_thread_view:
  assumes "tid \<in> t_id ` set (threads d)"
  shows "\<exists>v. get_thread_with_messages d tid = Some v
           \<and> set (v_messages v) = {m \<in> set (messages d). thread_id m = tid}"
proof -
  from assms have "find (\<lambda>t. t_id t = tid) (threads d) \<noteq> None"
    by (auto simp: find_None_iff)
  then obtain t where "find (\<lambda>t. t_id t = tid) (threads d) = Some t" by blast
  then show ?thesis by (simp add: get_thread_with_messages_def)
qed



lemma same_columns:
  assumes "map without_layout xs = map without_layout ys"
  shows "map thread_id xs = map thread_id ys" and "map m_id xs = map m_id ys"
    and "map parent_id xs = map parent_id ys"
proof -
  have "map thread_id (map without_layout xs) = map thread_id (map without_layout ys)"
    "map m_id (map without_layout xs) = map m_id (map without_layout ys)"
    "map parent_id (map without_layout xs) = map parent_id (map without_layout ys)"
    using assms by simp_all
  then show "map thread_id xs = map thread_id ys" and "map m_id xs = map m_id ys"
    and "map parent_id xs = map parent_id ys"
    by (simp_all add: without_layout_def o_def)
qed

lemma one_layout_frame:
  "map without_layout (map (\<lambda>m. if m_id m = mid then m\<lparr>layout_data := lay\<rparr> else m) rows)
     = map without_layout rows"
  by (induction rows) (simp_all add: without_layout_def)

lemma clear_frame:
  "map without_layout (map (\<lambda>m. if thread_id m = tid then m\<lparr>layout_data := None\<rparr> else m) rows)
     = map without_layout rows"
  by (induction rows) (simp_all add: without_layout_def)

lemma update_message_layout_frame:
  "map without_layout (messages (snd (update_message_layout d mid lay)))
     = map without_layout (messages d)"
proof -
  have "messages (snd (update_message_layout d mid lay))
      = map (\<lambda>m. if m_id m = mid then m\<lparr>layout_data := lay\<rparr> else m) (messages d)"
    by (simp add: update_message_layout_def)
  then show ?thesis by (simp only: one_layout_frame)
qed

lemma update_thread_layouts_frame:
  "map without_layout (messages (snd (update_thread_layouts d tid layouts)))
     = map without_layout (messages d)"
  by (simp add: update_thread_layouts_def set_layouts_frame)

lemma clear_thread_layouts_frame:
  "map without_layout (messages (snd (clear_thread_layouts d tid)))
     = map without_layout (messages d)"
proof -
  have "messages (snd (clear_thread_layouts d tid))
      = map (\<lambda>m. if thread_id m = tid then m\<lparr>layout_data := None\<rparr> else m) (messages d)"
    by (simp add: clear_thread_layouts_def)
  then show ?thesis by (simp only: clear_frame)
qed


text \<open>The rows that \<open>cascade\<close> removes are the rows below a deleted id.\<close>

lemma doomed_in_rows: "doomed W rows r \<Longrightarrow> r \<in> set rows"
  by (induction rule: doomed.induct) simp_all

lemma doomed_empty: "\<not> doomed {} rows r"
proof
  assume "doomed {} rows r"
  then show False by (induction rule: doomed.induct) simp_all
qed

lemma doomed_forward:
  assumes "doomed (insert i W) rows r"
  shows "parent_id r = Some i
     \<or> doomed (W \<union> m_id ` set (filter (\<lambda>c. parent_id c = Some i) rows))
              (filter (\<lambda>c. parent_id c \<noteq> Some i) rows) r"
  using assms
proof (induction rule: doomed.induct)
  case (direct r j)
  show ?case
  proof (cases "parent_id r = Some i")
    case True
    then show ?thesis by simp
  next
    case False
    with direct have "j \<in> W" and "r \<in> set (filter (\<lambda>c. parent_id c \<noteq> Some i) rows)"
      by auto
    with direct(2) show ?thesis by (blast intro: doomed.direct)
  qed
next
  case (below q r)
  show ?case
  proof (cases "parent_id r = Some i")
    case True
    then show ?thesis by simp
  next
    case False
    with below(2) have r: "r \<in> set (filter (\<lambda>c. parent_id c \<noteq> Some i) rows)" by simp
    from below.IH show ?thesis
    proof
      assume "parent_id q = Some i"
      moreover have "q \<in> set rows" using below(1) by (rule doomed_in_rows)
      ultimately have "m_id q \<in> m_id ` set (filter (\<lambda>c. parent_id c = Some i) rows)" by simp
      with r below(3) show ?thesis by (blast intro: doomed.direct)
    next
      assume "doomed (W \<union> m_id ` set (filter (\<lambda>c. parent_id c = Some i) rows))
                (filter (\<lambda>c. parent_id c \<noteq> Some i) rows) q"
      with r below(3) show ?thesis by (blast intro: doomed.below)
    qed
  qed
qed

lemma doomed_backward:
  assumes "doomed (W \<union> m_id ` set (filter (\<lambda>c. parent_id c = Some i) rows))
              (filter (\<lambda>c. parent_id c \<noteq> Some i) rows) r"
  shows "doomed (insert i W) rows r"
  using assms
proof (induction rule: doomed.induct)
  case (direct r j)
  then have r: "r \<in> set rows" by simp
  from direct(3) show ?case
  proof
    assume "j \<in> W"
    with r direct(2) show ?thesis by (blast intro: doomed.direct)
  next
    assume "j \<in> m_id ` set (filter (\<lambda>c. parent_id c = Some i) rows)"
    then obtain c where c: "c \<in> set rows" "parent_id c = Some i" "j = m_id c" by auto
    then have "doomed (insert i W) rows c" by (blast intro: doomed.direct)
    with r direct(2) c(3) show ?thesis by (blast intro: doomed.below)
  qed
next
  case (below q r)
  then have "r \<in> set rows" by simp
  with below.IH below(3) show ?case by (blast intro: doomed.below)
qed

lemma cascade_char: "cascade ids rows = filter (\<lambda>r. \<not> doomed (set ids) rows r) rows"
proof (induction ids rows rule: cascade.induct)
  case (1 rows)
  show ?case by (simp add: doomed_empty)
next
  case (2 i ids rows)
  let ?kids = "filter (\<lambda>c. parent_id c = Some i) rows"
  let ?rest = "filter (\<lambda>c. parent_id c \<noteq> Some i) rows"
  let ?W = "set ids \<union> m_id ` set ?kids"
  have "cascade (i # ids) rows = cascade (ids @ map m_id ?kids) ?rest" by simp
  also have "\<dots> = filter (\<lambda>r. \<not> doomed (set (ids @ map m_id ?kids)) ?rest r) ?rest"
    by (rule "2.IH")
  also have "\<dots> = filter (\<lambda>r. \<not> doomed ?W ?rest r) ?rest" by simp
  also have "\<dots> = filter (\<lambda>r. parent_id r \<noteq> Some i \<and> \<not> doomed ?W ?rest r) rows"
    by (simp add: conj_commute)
  also have "\<dots> = filter (\<lambda>r. \<not> doomed (set (i # ids)) rows r) rows"
  proof (rule filter_cong [OF refl])
    fix r assume r: "r \<in> set rows"
    have "doomed (insert i (set ids)) rows r \<longleftrightarrow> parent_id r = Some i \<or> doomed ?W ?rest r"
    proof
      assume "doomed (insert i (set ids)) rows r"
      then show "parent_id r = Some i \<or> doomed ?W ?rest r" by (rule doomed_forward)
    next
      assume "parent_id r = Some i \<or> doomed ?W ?rest r"
      then show "doomed (insert i (set ids)) rows r"
      proof
        assume "parent_id r = Some i"
        with r show ?thesis by (blast intro: doomed.direct)
      next
        assume "doomed ?W ?rest r"
        then show ?thesis by (rule doomed_backward)
      qed
    qed
    then show "(parent_id r \<noteq> Some i \<and> \<not> doomed ?W ?rest r)
        = (\<not> doomed (set (i # ids)) rows r)" by simp
  qed
  finally show ?case .
qed














text \<open>The primary key: message ids are unique in every reachable store.\<close>

lemma fold_max_start: "(s::int) \<le> fold max ids s"
proof (induction ids arbitrary: s)
  case Nil
  show ?case by simp
next
  case (Cons a ids)
  have "s \<le> max a s" by simp
  also have "\<dots> \<le> fold max ids (max a s)" by (rule Cons.IH)
  finally show ?case by simp
qed

lemma fold_max_member: "x \<in> set ids \<Longrightarrow> (x::int) \<le> fold max ids s"
proof (induction ids arbitrary: s)
  case Nil
  then show ?case by simp
next
  case (Cons a ids)
  show ?case
  proof (cases "x = a")
    case True
    have "x \<le> max a s" using True by simp
    also have "\<dots> \<le> fold max ids (max a s)" by (rule fold_max_start)
    finally show ?thesis by simp
  next
    case False
    with Cons.prems have "x \<in> set ids" by simp
    then have "x \<le> fold max ids (max a s)" by (rule Cons.IH)
    then show ?thesis by simp
  qed
qed

lemma next_id_fresh: "next_id s ids \<notin> set ids"
proof
  assume "next_id s ids \<in> set ids"
  then have "next_id s ids \<le> fold max ids s" by (rule fold_max_member)
  then show False by (simp add: next_id_def)
qed

lemma cascade_distinct:
  assumes "distinct (map m_id rows)"
  shows "distinct (map m_id (cascade ws rows))"
  unfolding cascade_char using assms by (rule distinct_map_filter)

lemma message_ids_distinct: "reachable d \<Longrightarrow> distinct (map m_id (messages d))"
proof (induction rule: reachable.induct)
  case r_init
  show ?case by (simp add: init_db_def)
next
  case (r_create_thread d now ttl)
  have "messages (snd (create_thread d now ttl)) = messages d"
    by (cases ttl) (simp_all add: create_thread_def Let_def)
  with r_create_thread.IH show ?case by simp
next
  case (r_delete_thread d tid)
  let ?gone = "map t_id (filter (\<lambda>t. t_id t = tid) (threads d))"
  let ?ws = "map m_id (filter (\<lambda>m. thread_id m \<in> set ?gone) (messages d))"
  let ?rest = "filter (\<lambda>m. thread_id m \<notin> set ?gone) (messages d)"
  have ms: "messages (snd (delete_thread d tid)) = cascade ?ws ?rest"
    by (simp add: delete_thread_def Let_def)
  from r_delete_thread.IH have "distinct (map m_id ?rest)" by (rule distinct_map_filter)
  then show ?case unfolding ms by (rule cascade_distinct)
next
  case (r_create_message d now tid pid w c)
  let ?i = "next_id (message_seq d) (map m_id (messages d))"
  have "map m_id (messages (snd (create_message d now tid pid w c))) = map m_id (messages d)
      \<or> map m_id (messages (snd (create_message d now tid pid w c))) = map m_id (messages d) @ [?i]"
    by (auto simp: create_message_def Let_def split: option.splits if_splits)
  then show ?case
  proof
    assume "map m_id (messages (snd (create_message d now tid pid w c))) = map m_id (messages d)"
    with r_create_message.IH show ?thesis by simp
  next
    assume "map m_id (messages (snd (create_message d now tid pid w c)))
        = map m_id (messages d) @ [?i]"
    with r_create_message.IH next_id_fresh [of "message_seq d" "map m_id (messages d)"]
    show ?thesis by simp
  qed
next
  case (r_delete_message d mid)
  let ?ws = "map m_id (filter (\<lambda>m. m_id m = mid) (messages d))"
  let ?rest = "filter (\<lambda>m. m_id m \<noteq> mid) (messages d)"
  have ms: "messages (snd (delete_message d mid)) = cascade ?ws ?rest"
    by (simp add: delete_message_def)
  from r_delete_message.IH have "distinct (map m_id ?rest)" by (rule distinct_map_filter)
  then show ?case unfolding ms by (rule cascade_distinct)
next
  case (r_update_message_layout d mid lay)
  then show ?case by (simp add: same_columns(2) [OF update_message_layout_frame])
next
  case (r_update_thread_layouts d tid layouts)
  then show ?case by (simp add: same_columns(2) [OF update_thread_layouts_frame])
next
  case (r_clear_thread_layouts d tid)
  then show ?case by (simp add: same_columns(2) [OF clear_thread_layouts_frame])
qed

subsection \<open>Claims\<close>








text \<open>
  C10: \<open>update_thread_layouts\<close> and \<open>clear_thread_layouts\<close> leave the thread table and
  both id counters alone, and the message table is row by row the old one up to
  \<open>layout_data\<close>: no row is added, removed or moved and every other column keeps its
  value. \<open>clear_thread_layouts tid\<close> leaves the rows of other threads wholly unchanged.
\<close>

theorem layout_calls_frame:
  "map without_layout (messages (snd (update_thread_layouts d tid layouts)))
     = map without_layout (messages d)
   \<and> threads (snd (update_thread_layouts d tid layouts)) = threads d
   \<and> thread_seq (snd (update_thread_layouts d tid layouts)) = thread_seq d
   \<and> message_seq (snd (update_thread_layouts d tid layouts)) = message_seq d
   \<and> map without_layout (messages (snd (clear_thread_layouts d tid)))
     = map without_layout (messages d)
   \<and> threads (snd (clear_thread_layouts d tid)) = threads d
   \<and> thread_seq (snd (clear_thread_layouts d tid)) = thread_seq d
   \<and> message_seq (snd (clear_thread_layouts d tid)) = message_seq d
   \<and> filter (\<lambda>m. thread_id m \<noteq> tid) (messages (snd (clear_thread_layouts d tid)))
     = filter (\<lambda>m. thread_id m \<noteq> tid) (messages d)"
  by (simp add: update_thread_layouts_def clear_thread_layouts_def set_layouts_frame
      clear_other without_layout_def)

text \<open>
  C9: \<open>get_all_threads\<close> lists the threads by \<open>created_at\<close>, newest first, and the messages
  that \<open>get_thread_with_messages\<close> returns are listed by \<open>created_at\<close>, oldest first.
\<close>

theorem reads_are_ordered:
  "sorted_wrt (\<lambda>a b. s_created_at a \<ge> s_created_at b) (get_all_threads d)
   \<and> (\<forall>v. get_thread_with_messages d tid = Some v
          \<longrightarrow> sorted_wrt (\<lambda>a b. created_at a \<le> created_at b) (v_messages v))"
proof (intro conjI allI impI)
  show "sorted_wrt (\<lambda>a b. s_created_at a \<ge> s_created_at b) (get_all_threads d)"
    unfolding get_all_threads_def sorted_wrt_rev
    using sorted_sort_key [of s_created_at] by (simp add: sorted_map)
next
  fix v assume "get_thread_with_messages d tid = Some v"
  then have "v_messages v = sort_key created_at (filter (\<lambda>m. thread_id m = tid) (messages d))"
    by (auto simp: get_thread_with_messages_def split: option.splits)
  then show "sorted_wrt (\<lambda>a b. created_at a \<le> created_at b) (v_messages v)"
    using sorted_sort_key [of created_at] by (simp add: sorted_map)
qed

theorem reads_are_ordered_witness:
  "get_thread_with_messages demo_db 1 \<noteq> None
   \<and> map s_id (get_all_threads demo_db) = [2, 1]
   \<and> sorted_wrt (\<lambda>a b. s_created_at a \<ge> s_created_at b) (get_all_threads demo_db)
   \<and> sorted_wrt (\<lambda>a b. created_at a \<le> created_at b)
        (v_messages (the (get_thread_with_messages demo_db 1)))"
proof -
  have e: "get_thread_with_messages demo_db 1 \<noteq> None"
    by (simp add: get_thread_with_messages_def demo_db_def)
  have l: "map s_id (get_all_threads demo_db) = [2, 1]"
    by (simp add: get_all_threads_def demo_db_def)
  from e obtain v where v: "get_thread_with_messages demo_db 1 = Some v" by blast
  show ?thesis using e l v reads_are_ordered [of demo_db 1] by simp
qed






text \<open>
  C5: when thread \<open>tid\<close> exists and \<open>mid\<close> is a message of it,
  \<open>update_thread_layouts d tid {mid: b}\<close> followed by \<open>get_thread_with_messages tid\<close> returns
  the thread, \<open>mid\<close> is among its messages and carries \<open>layout_data = b\<close>; after a following
  \<open>clear_thread_layouts tid\<close> the read returns the thread, still with \<open>mid\<close>, and every
  message of it has no \<open>layout_data\<close>.
\<close>

theorem layout_round_trip:
  "tid \<in> t_id ` set (threads d) \<Longrightarrow> in_thread (messages d) tid mid \<Longrightarrow>
     (\<exists>v. get_thread_with_messages (snd (update_thread_layouts d tid [(mid, b)])) tid = Some v
          \<and> list_ex (\<lambda>m. m_id m = mid) (v_messages v)
          \<and> list_all (\<lambda>m. m_id m = mid \<longrightarrow> layout_data m = b) (v_messages v))
     \<and> (\<exists>v. get_thread_with_messages
               (snd (clear_thread_layouts (snd (update_thread_layouts d tid [(mid, b)])) tid)) tid
             = Some v
          \<and> list_ex (\<lambda>m. m_id m = mid) (v_messages v)
          \<and> list_all (\<lambda>m. layout_data m = None) (v_messages v))"
proof -
  assume t: "tid \<in> t_id ` set (threads d)" and m: "in_thread (messages d) tid mid"
  let ?d1 = "snd (update_thread_layouts d tid [(mid, b)])"
  let ?d2 = "snd (clear_thread_layouts ?d1 tid)"
  from m obtain r where r: "r \<in> set (messages d)" "m_id r = mid" "thread_id r = tid"
    by (auto simp: in_thread_def list_ex_iff)
  have m1: "messages ?d1 = set_layout tid (mid, b) (messages d)"
    by (simp add: update_thread_layouts_def)
  have t1: "tid \<in> t_id ` set (threads ?d1)"
    using t by (simp add: update_thread_layouts_def)
  have m2: "messages ?d2
      = map (\<lambda>m. if thread_id m = tid then m\<lparr>layout_data := None\<rparr> else m) (messages ?d1)"
    by (simp add: clear_thread_layouts_def)
  have t2: "tid \<in> t_id ` set (threads ?d2)"
    using t1 by (simp add: clear_thread_layouts_def)
  from get_thread_view [OF t1] obtain v where
    v: "get_thread_with_messages ?d1 tid = Some v"
       "set (v_messages v) = {m \<in> set (messages ?d1). thread_id m = tid}" by blast
  let ?f = "\<lambda>m. if m_id m = mid \<and> thread_id m = tid then m\<lparr>layout_data := b\<rparr> else m"
  let ?g = "\<lambda>m. if thread_id m = tid then m\<lparr>layout_data := None\<rparr> else m"
  have s1: "set (messages ?d1) = ?f ` set (messages d)"
    unfolding m1 set_layout_def by simp
  have s2: "set (messages ?d2) = ?g ` set (messages ?d1)"
    unfolding m2 by simp
  have "?f r \<in> set (messages ?d1)" unfolding s1 using r(1) by (rule imageI)
  then have r1: "r\<lparr>layout_data := b\<rparr> \<in> set (messages ?d1)" using r by simp
  then have "r\<lparr>layout_data := b\<rparr> \<in> set (v_messages v)" unfolding v(2) using r by simp
  then have ex1: "list_ex (\<lambda>m. m_id m = mid) (v_messages v)"
    unfolding list_ex_iff using r(2) by (intro bexI [where x = "r\<lparr>layout_data := b\<rparr>"]) simp_all
  have all1: "list_all (\<lambda>m. m_id m = mid \<longrightarrow> layout_data m = b) (v_messages v)"
    unfolding list_all_iff
  proof (intro ballI impI)
    fix x assume x: "x \<in> set (v_messages v)" "m_id x = mid"
    then have x1: "x \<in> set (messages ?d1)" and xt: "thread_id x = tid"
      unfolding v(2) by simp_all
    from x1 s1 have "x \<in> ?f ` set (messages d)" by blast
    then obtain m where m: "m \<in> set (messages d)" "x = ?f m" by blast
    show "layout_data x = b"
    proof (cases "m_id m = mid \<and> thread_id m = tid")
      case True
      with m show ?thesis by simp
    next
      case False
      with m have "x = m" by simp
      with x(2) xt False show ?thesis by simp
    qed
  qed
  from get_thread_view [OF t2] obtain w where
    w: "get_thread_with_messages ?d2 tid = Some w"
       "set (v_messages w) = {m \<in> set (messages ?d2). thread_id m = tid}" by blast
  have "?g (r\<lparr>layout_data := b\<rparr>) \<in> set (messages ?d2)" unfolding s2 using r1 by (rule imageI)
  then have r2: "r\<lparr>layout_data := None\<rparr> \<in> set (messages ?d2)" using r by simp
  then have "r\<lparr>layout_data := None\<rparr> \<in> set (v_messages w)" unfolding w(2) using r by simp
  then have ex2: "list_ex (\<lambda>m. m_id m = mid) (v_messages w)"
    unfolding list_ex_iff using r(2) by (intro bexI [where x = "r\<lparr>layout_data := None\<rparr>"]) simp_all
  have all2: "list_all (\<lambda>m. layout_data m = None) (v_messages w)"
    unfolding list_all_iff
  proof (intro ballI)
    fix x assume x: "x \<in> set (v_messages w)"
    then have x2: "x \<in> set (messages ?d2)" and xt: "thread_id x = tid"
      unfolding w(2) by simp_all
    from x2 s2 have "x \<in> ?g ` set (messages ?d1)" by blast
    then obtain m where m: "x = ?g m" by blast
    show "layout_data x = None"
    proof (cases "thread_id m = tid")
      case True
      with m show ?thesis by simp
    next
      case False
      with m have "x = m" by simp
      with xt False show ?thesis by simp
    qed
  qed
  from v(1) ex1 all1 w(1) ex2 all2 show ?thesis by blast
qed

theorem layout_round_trip_witness:
  "(1::int) \<in> t_id ` set (threads demo_db) \<and> in_thread (messages demo_db) 1 3
   \<and> (\<exists>v. get_thread_with_messages
              (snd (update_thread_layouts demo_db 1 [(3, Some ''blob'')])) 1 = Some v
          \<and> list_ex (\<lambda>m. m_id m = 3) (v_messages v)
          \<and> list_all (\<lambda>m. m_id m = 3 \<longrightarrow> layout_data m = Some ''blob'') (v_messages v))
   \<and> (\<exists>v. get_thread_with_messages
              (snd (clear_thread_layouts
                     (snd (update_thread_layouts demo_db 1 [(3, Some ''blob'')])) 1)) 1 = Some v
          \<and> list_ex (\<lambda>m. m_id m = 3) (v_messages v)
          \<and> list_all (\<lambda>m. layout_data m = None) (v_messages v))"
proof -
  have h1: "(1::int) \<in> t_id ` set (threads demo_db)" by (simp add: demo_db_def)
  have h2: "in_thread (messages demo_db) 1 3" by (simp add: in_thread_def demo_db_def)
  show ?thesis using h1 h2 layout_round_trip [OF h1 h2, of "Some ''blob''"] by blast
qed






end
